theory Spec2Isabelle
  imports Complex_Main "HOL-Library.AList"
begin

section \<open>Session engine of flask_app.py\<close>

text \<open>
  The program keeps one global dictionary \<open>active_sessions\<close> from session ids to
  session records, each holding a live Telegram client. Three HTTP routes
  (\<open>send_code\<close>, \<open>verify_code\<close>, \<open>submit_2fa\<close>) drive the login flow. The model
  threads an explicit \<open>world\<close> through every function; everything the program gets
  from outside (clock readings, the random token, the outcome of each call on the
  Telegram client) is read from an \<open>env\<close> record, so that each function is a
  total, executable function of its inputs.
\<close>

subsection \<open>JSON values of a request body\<close>

text \<open>
  The values \<open>data.get(key)\<close> can return. Floats, arrays and nested objects are not
  modelled. A missing key reads as \<open>JNull\<close>, as \<open>dict.get\<close> returns \<open>None\<close>.
\<close>

datatype json = JNull | JBool bool | JInt int | JStr string

type_synonym json_object = "string \<rightharpoonup> json"

definition get :: "json_object \<Rightarrow> string \<Rightarrow> json" where
  "get d k = (case d k of None \<Rightarrow> JNull | Some v \<Rightarrow> v)"

text \<open>Python truthiness, as used by \<open>all([...])\<close>.\<close>

fun truthy :: "json \<Rightarrow> bool" where
  "truthy JNull = False"
| "truthy (JBool b) = b"
| "truthy (JInt n) = (n \<noteq> 0)"
| "truthy (JStr s) = (s \<noteq> [])"

subsection \<open>The builtin \<open>int(...)\<close>\<close>

text \<open>
  \<open>int(s)\<close> on a string: surrounding whitespace is stripped, an optional sign
  follows, then decimal digits, where single underscores may separate digits.
  Anything else raises \<open>ValueError\<close> (\<open>None\<close> here). Strings are ASCII; the
  interpreter's optional limit on the number of digits is not modelled.
\<close>

definition py_isspace :: "char \<Rightarrow> bool" where
  "py_isspace c = (of_char c \<in> {9, 10, 11, 12, 13, 28, 29, 30, 31, 32 :: nat})"

definition py_isdigit :: "char \<Rightarrow> bool" where
  "py_isdigit c = (48 \<le> (of_char c :: nat) \<and> (of_char c :: nat) \<le> 57)"

definition py_strip :: "string \<Rightarrow> string" where
  "py_strip s = rev (dropWhile py_isspace (rev (dropWhile py_isspace s)))"

fun parse_digits :: "bool \<Rightarrow> nat \<Rightarrow> string \<Rightarrow> nat option" where
  "parse_digits prev acc [] = (if prev then Some acc else None)"
| "parse_digits prev acc (c # cs) =
     (if py_isdigit c then parse_digits True (10 * acc + (of_char c - 48)) cs
      else if c = CHR ''_'' \<and> prev then parse_digits False acc cs
      else None)"

definition int_of_str :: "string \<Rightarrow> int option" where
  "int_of_str s =
     (case py_strip s of
        [] \<Rightarrow> None
      | c # cs \<Rightarrow>
          if c = CHR ''-'' then map_option (\<lambda>n. - int n) (parse_digits False 0 cs)
          else if c = CHR ''+'' then map_option int (parse_digits False 0 cs)
          else map_option int (parse_digits False 0 (c # cs)))"

text \<open>
  \<open>int(api_id)\<close> on a truthy JSON value: an integer is returned as it is, a
  boolean becomes 0 or 1, a string is parsed. (\<open>int(None)\<close> raises \<open>TypeError\<close>,
  but \<open>None\<close> never reaches the call.)
\<close>

fun py_int :: "json \<Rightarrow> int option" where
  "py_int (JInt n) = Some n"
| "py_int (JBool b) = Some (if b then 1 else 0)"
| "py_int (JStr s) = int_of_str s"
| "py_int JNull = None"

subsection \<open>Sessions, the world and the environment\<close>

type_synonym client_id = nat

record session =
  client :: client_id
  api_id :: int
  api_hash :: json
  phone :: json
  phone_code_hash :: "string option"
  created_at :: real

text \<open>Every call made on a Telegram client is appended to a log.\<close>

datatype call =
    Connect client_id
  | SendCodeRequest client_id json
  | SignInCode client_id json json
  | SignInPassword client_id json
  | SaveSession client_id
  | Disconnect client_id

text \<open>
  \<open>active_sessions\<close> is the dictionary, in insertion order. \<open>live\<close> is the set of
  clients whose connection is open, \<open>next_client\<close> the identity of the next client
  object to be constructed.
\<close>

record world =
  active_sessions :: "(string \<times> session) list"
  live :: "client_id set"
  next_client :: client_id
  calls :: "call list"

datatype send_outcome =
    Sent "string option"
  | ApiIdInvalidError
  | PhoneNumberInvalidError
  | SendError string

datatype sign_in_outcome =
    SignedIn
  | SessionPasswordNeededError
  | PhoneCodeInvalidError
  | PhoneCodeExpiredError
  | SignInError string

text \<open>
  What one request reads from outside. \<open>now_sweep\<close>, \<open>now_check\<close> and \<open>now_create\<close>
  are the values of \<open>time.time()\<close> in \<open>expire_old_sessions\<close>, in \<open>verify_code\<close>
  and in \<open>async_send_code\<close>; \<open>token\<close> is \<open>secrets.token_hex(16)\<close>. An exception is
  its message text. \<open>disconnect_ok c\<close> says whether \<open>disconnect()\<close> on client \<open>c\<close>
  closes the connection; when it does not, the call raises and the connection
  stays as it was. \<open>body_error\<close> is the text of the exception raised when the
  request body is not a JSON object.
\<close>

record env =
  now_sweep :: real
  now_check :: real
  now_create :: real
  token :: string
  connect_res :: "string option"
  send_code_res :: send_outcome
  sign_in_res :: sign_in_outcome
  save_res :: "string + string"
  disconnect_ok :: "client_id \<Rightarrow> bool"
  body_error :: string

datatype response =
    Ok_session_id string
  | Ok_session_string string
  | Error string

subsection \<open>Helpers\<close>

definition log_call :: "call \<Rightarrow> world \<Rightarrow> world" where
  "log_call c w = w\<lparr>calls := calls w @ [c]\<rparr>"

text \<open>
  \<open>client.disconnect()\<close> inside a \<open>try\<close> whose handler swallows the exception:
  every call site in the program has this shape.
\<close>

definition disconnect :: "env \<Rightarrow> client_id \<Rightarrow> world \<Rightarrow> world" where
  "disconnect e c w =
     (let w1 = log_call (Disconnect c) w
      in if disconnect_ok e c then w1\<lparr>live := live w1 - {c}\<rparr> else w1)"

definition cleanup_session :: "env \<Rightarrow> string \<Rightarrow> world \<Rightarrow> world" where
  "cleanup_session e sid w =
     (case map_of (active_sessions w) sid of
        None \<Rightarrow> w
      | Some sess \<Rightarrow>
          let w1 = disconnect e (client sess) w
          in w1\<lparr>active_sessions := AList.delete sid (active_sessions w1)\<rparr>)"

definition expired :: "real \<Rightarrow> (string \<times> session) list \<Rightarrow> string list" where
  "expired now al = map fst (filter (\<lambda>(sid, s). now - created_at s > 600) al)"

definition expire_old_sessions :: "env \<Rightarrow> world \<Rightarrow> world" where
  "expire_old_sessions e w =
     fold (cleanup_session e) (expired (now_sweep e) (active_sessions w)) w"

subsection \<open>Async Telethon workers\<close>

definition async_send_code ::
  "env \<Rightarrow> int \<Rightarrow> json \<Rightarrow> json \<Rightarrow> string \<Rightarrow> world \<Rightarrow> response \<times> world" where
  "async_send_code e aid ahash ph sid w =
     (let c = next_client w;
          w1 = log_call (Connect c) (w\<lparr>next_client := Suc c\<rparr>)
      in case connect_res e of
           Some err \<Rightarrow> (Error (''Failed to connect: '' @ err), disconnect e c w1)
         | None \<Rightarrow>
             let w2 = log_call (SendCodeRequest c ph) (w1\<lparr>live := insert c (live w1)\<rparr>)
             in (case send_code_res e of
                   ApiIdInvalidError \<Rightarrow> (Error ''Invalid API ID'', disconnect e c w2)
                 | PhoneNumberInvalidError \<Rightarrow>
                     (Error ''Invalid phone number'', disconnect e c w2)
                 | SendError err \<Rightarrow>
                     (Error (''Failed to send code: '' @ err), disconnect e c w2)
                 | Sent pch \<Rightarrow>
                     (Ok_session_id sid,
                      w2\<lparr>active_sessions :=
                           AList.update sid
                             \<lparr>client = c, api_id = aid, api_hash = ahash, phone = ph,
                              phone_code_hash = pch, created_at = now_create e\<rparr>
                             (active_sessions w2)\<rparr>)))"

text \<open>
  The test \<open>if not client\<close> of both workers below guards a key that every record
  built by \<open>async_send_code\<close> carries; the record type makes it total.
\<close>

definition async_verify_code :: "env \<Rightarrow> string \<Rightarrow> json \<Rightarrow> world \<Rightarrow> response \<times> world" where
  "async_verify_code e sid code w =
     (case map_of (active_sessions w) sid of
        None \<Rightarrow> (Error ''Session expired. Please start over.'', w)
      | Some sess \<Rightarrow>
          let c = client sess;
              w1 = log_call (SignInCode c (phone sess) code) w
          in (case sign_in_res e of
                SessionPasswordNeededError \<Rightarrow> (Error ''2FA password required'', w1)
              | PhoneCodeInvalidError \<Rightarrow> (Error ''Invalid verification code'', w1)
              | PhoneCodeExpiredError \<Rightarrow>
                  (Error ''Verification code expired. Please request a new code.'', w1)
              | SignInError err \<Rightarrow> (Error (''Verification failed: '' @ err), w1)
              | SignedIn \<Rightarrow>
                  let w2 = log_call (SaveSession c) w1
                  in (case save_res e of
                        Inl err \<Rightarrow>
                          (Error (''Failed to export session string: '' @ err),
                           cleanup_session e sid (disconnect e c w2))
                      | Inr str \<Rightarrow>
                          (Ok_session_string str,
                           cleanup_session e sid (disconnect e c w2)))))"

definition async_submit_2fa :: "env \<Rightarrow> string \<Rightarrow> json \<Rightarrow> world \<Rightarrow> response \<times> world" where
  "async_submit_2fa e sid password w =
     (case map_of (active_sessions w) sid of
        None \<Rightarrow> (Error ''Session expired. Please start over.'', w)
      | Some sess \<Rightarrow>
          let c = client sess;
              w1 = log_call (SignInPassword c password) w
          in (case sign_in_res e of
                SignedIn \<Rightarrow>
                  (let w2 = log_call (SaveSession c) w1
                   in (case save_res e of
                         Inl err \<Rightarrow>
                           (Error (''Failed to export session: '' @ err),
                            cleanup_session e sid (disconnect e c w2))
                       | Inr str \<Rightarrow>
                           (Ok_session_string str,
                            cleanup_session e sid (disconnect e c w2))))
              | _ \<Rightarrow> (Error ''Invalid 2FA password'', w1)))"

subsection \<open>Flask routes\<close>

text \<open>
  A request body is \<open>None\<close> when \<open>request.get_json()\<close> does not yield an object;
  the outer handler of the route then answers. \<open>run_async\<close> is modelled as running
  the worker to its end: its timeout is real time and outside the model. The keys
  of \<open>active_sessions\<close> are strings, so a session id that is not a string finds
  no record.
\<close>

definition send_code :: "env \<Rightarrow> json_object option \<Rightarrow> world \<Rightarrow> response \<times> world" where
  "send_code e body w0 =
     (let w = expire_old_sessions e w0
      in case body of
           None \<Rightarrow> (Error (''Failed to send code: '' @ body_error e), w)
         | Some d \<Rightarrow>
             let aid = get d ''api_id'';
                 ahash = get d ''api_hash'';
                 ph = get d ''phone_number''
             in if \<not> (truthy aid \<and> truthy ahash \<and> truthy ph)
                then (Error ''All fields are required'', w)
                else (case py_int aid of
                        None \<Rightarrow> (Error ''API ID must be a number'', w)
                      | Some n \<Rightarrow> async_send_code e n ahash ph (token e) w))"

definition verify_code :: "env \<Rightarrow> json_object option \<Rightarrow> world \<Rightarrow> response \<times> world" where
  "verify_code e body w0 =
     (let w = expire_old_sessions e w0
      in case body of
           None \<Rightarrow> (Error (''Verification failed: '' @ body_error e), w)
         | Some d \<Rightarrow>
             let session_id = get d ''session_id'';
                 phone_code = get d ''phone_code''
             in if \<not> (truthy session_id \<and> truthy phone_code)
                then (Error ''All fields are required'', w)
                else (case session_id of
                        JStr sid \<Rightarrow>
                          (case map_of (active_sessions w) sid of
                             None \<Rightarrow> (Error ''Session expired. Please start over.'', w)
                           | Some sess \<Rightarrow>
                               if now_check e - created_at sess > 600
                               then (Error ''Session expired. Please request a new code.'',
                                     cleanup_session e sid w)
                               else async_verify_code e sid phone_code w)
                      | _ \<Rightarrow> (Error ''Session expired. Please start over.'', w)))"

definition submit_2fa :: "env \<Rightarrow> json_object option \<Rightarrow> world \<Rightarrow> response \<times> world" where
  "submit_2fa e body w0 =
     (let w = expire_old_sessions e w0
      in case body of
           None \<Rightarrow> (Error (''2FA failed: '' @ body_error e), w)
         | Some d \<Rightarrow>
             let session_id = get d ''session_id'';
                 password = get d ''password''
             in if \<not> (truthy session_id \<and> truthy password)
                then (Error ''All fields are required'', w)
                else (case session_id of
                        JStr sid \<Rightarrow>
                          (case map_of (active_sessions w) sid of
                             None \<Rightarrow> (Error ''Session expired. Please start over.'', w)
                           | Some sess \<Rightarrow> async_submit_2fa e sid password w)
                      | _ \<Rightarrow> (Error ''Session expired. Please start over.'', w)))"

text \<open>The three routes behind one dispatcher, as the web server offers them.\<close>

datatype route = Send_code | Verify_code | Submit_2fa

fun handle_request :: "route \<Rightarrow> env \<Rightarrow> json_object option \<Rightarrow> world \<Rightarrow> response \<times> world" where
  "handle_request Send_code e body w = send_code e body w"
| "handle_request Verify_code e body w = verify_code e body w"
| "handle_request Submit_2fa e body w = submit_2fa e body w"

text \<open>Requests are served one after the other.\<close>

fun serve :: "(route \<times> env \<times> json_object option) list \<Rightarrow> world \<Rightarrow> response list \<times> world" where
  "serve [] w = ([], w)"
| "serve ((r, e, body) # rest) w =
     (let (resp, w1) = handle_request r e body w;
          (resps, w2) = serve rest w1
      in (resp # resps, w2))"

subsection \<open>A concrete scenario\<close>

text \<open>
  One stored session, created at second 1000, and an environment in which every
  call on the Telegram client succeeds. The theorems below are exercised on
  variations of it.
\<close>

definition demo_handle :: string where
  "demo_handle = ''9f86d081884c7d659a2feaa0c55ad015''"

definition demo_session :: session where
  "demo_session =
     \<lparr>client = 0, api_id = 12345, api_hash = JStr ''0123456789abcdef0123456789abcdef'',
      phone = JStr ''+10000000000'', phone_code_hash = Some ''c0de'', created_at = 1000\<rparr>"

definition demo_world :: world where
  "demo_world =
     \<lparr>active_sessions = [(demo_handle, demo_session)], live = {0}, next_client = 1,
      calls = []\<rparr>"

definition demo_env :: env where
  "demo_env =
     \<lparr>now_sweep = 1100, now_check = 1100, now_create = 1100,
      token = ''60303ae22b998861bce3b28f33eec1be'',
      connect_res = None, send_code_res = Sent (Some ''c0de''),
      sign_in_res = SignedIn, save_res = Inr ''1BVtsOKABu4'',
      disconnect_ok = (\<lambda>c. True), body_error = ''400 Bad Request''\<rparr>"

definition password_body :: "string \<Rightarrow> string \<Rightarrow> json_object" where
  "password_body sid pw = [''session_id'' \<mapsto> JStr sid, ''password'' \<mapsto> JStr pw]"

definition code_body :: "string \<Rightarrow> string \<Rightarrow> json_object" where
  "code_body sid code = [''session_id'' \<mapsto> JStr sid, ''phone_code'' \<mapsto> JStr code]"

subsection \<open>Retrying after a wrong code or password\<close>

text \<open>
  \<open>retry_failure sid sess x\<close>: the request \<open>x\<close> is a \<open>verify_code\<close> or \<open>submit_2fa\<close>
  on the handle \<open>sid\<close>, made while the record \<open>sess\<close> is within its 600 seconds, whose
  sign-in call is refused (wrong or expired code; any exception for the password).
  \<open>retry_answer x\<close> is the answer the program gives to such a request.
\<close>

definition retry_failure :: "string \<Rightarrow> session \<Rightarrow> route \<times> env \<times> json_object option \<Rightarrow> bool" where
  "retry_failure sid sess x =
     (case x of (r, e, body) \<Rightarrow>
        (case body of
           None \<Rightarrow> False
         | Some d \<Rightarrow>
             get d ''session_id'' = JStr sid \<and>
             \<not> now_sweep e - created_at sess > 600 \<and>
             (case r of
                Send_code \<Rightarrow> False
              | Verify_code \<Rightarrow>
                  truthy (get d ''phone_code'') \<and>
                  \<not> now_check e - created_at sess > 600 \<and>
                  (sign_in_res e = PhoneCodeInvalidError \<or>
                   sign_in_res e = PhoneCodeExpiredError)
              | Submit_2fa \<Rightarrow>
                  truthy (get d ''password'') \<and> sign_in_res e \<noteq> SignedIn)))"

definition retry_answer :: "route \<times> env \<times> json_object option \<Rightarrow> response" where
  "retry_answer x =
     (case x of (r, e, body) \<Rightarrow>
        (case r of
           Verify_code \<Rightarrow>
             if sign_in_res e = PhoneCodeInvalidError
             then Error ''Invalid verification code''
             else Error ''Verification code expired. Please request a new code.''
         | _ \<Rightarrow> Error ''Invalid 2FA password''))"

definition demo_retries :: "(route \<times> env \<times> json_object option) list" where
  "demo_retries =
     [(Verify_code, demo_env\<lparr>sign_in_res := PhoneCodeInvalidError\<rparr>,
       Some (code_body demo_handle ''00000'')),
      (Verify_code, demo_env\<lparr>sign_in_res := PhoneCodeExpiredError, now_sweep := 1300,
         now_check := 1300\<rparr>,
       Some (code_body demo_handle ''12345'')),
      (Submit_2fa, demo_env\<lparr>sign_in_res := SignInError ''PasswordHashInvalidError'',
         now_sweep := 1600\<rparr>,
       Some (password_body demo_handle ''hunter2''))]"

text \<open>
  A clock that passes the 600 seconds of the stored session between the sweep and the
  check of \<open>verify_code\<close>, and a world with no session.
\<close>

definition late_env :: env where
  "late_env = demo_env\<lparr>now_sweep := 1600, now_check := 1601\<rparr>"

definition empty_world :: world where
  "empty_world = \<lparr>active_sessions = [], live = {}, next_client = 0, calls = []\<rparr>"



text \<open>The client on which a call signs in or exports the session, if it is such a call.\<close>

fun sign_in_client :: "call \<Rightarrow> client_id option" where
  "sign_in_client (SignInCode c ph code) = Some c"
| "sign_in_client (SignInPassword c pw) = Some c"
| "sign_in_client (SaveSession c) = Some c"
| "sign_in_client (Connect c) = None"
| "sign_in_client (SendCodeRequest c ph) = None"
| "sign_in_client (Disconnect c) = None"

subsection \<open>Records and connections\<close>

text \<open>
  \<open>store_matches_connections w\<close>: the dictionary holds each handle once, no two
  records share a client, the open connections are exactly the clients of the
  stored records, and every open connection belongs to a client already constructed.
\<close>

definition store_matches_connections :: "world \<Rightarrow> bool" where
  "store_matches_connections w \<longleftrightarrow>
     distinct (map fst (active_sessions w)) \<and>
     distinct (map (client \<circ> snd) (active_sessions w)) \<and>
     live w = set (map (client \<circ> snd) (active_sessions w)) \<and>
     (\<forall>c \<in> live w. c < next_client w)"

section \<open>Basic facts\<close>

subsection \<open>Effects of the helpers on each component of the world\<close>

lemma store_log_call [simp]: "active_sessions (log_call c w) = active_sessions w"
  and live_log_call [simp]: "live (log_call c w) = live w"
  and next_log_call [simp]: "next_client (log_call c w) = next_client w"
  and calls_log_call [simp]: "calls (log_call c w) = calls w @ [c]"
  by (simp_all add: log_call_def)

lemma store_disconnect [simp]: "active_sessions (disconnect e c w) = active_sessions w"
  and next_disconnect [simp]: "next_client (disconnect e c w) = next_client w"
  and calls_disconnect [simp]: "calls (disconnect e c w) = calls w @ [Disconnect c]"
  and live_disconnect:
    "live (disconnect e c w) = (if disconnect_ok e c then live w - {c} else live w)"
  by (simp_all add: disconnect_def Let_def)

lemma store_cleanup_session:
  "active_sessions (cleanup_session e sid w) = AList.delete sid (active_sessions w)"
proof (cases "map_of (active_sessions w) sid")
  case None
  then have "sid \<notin> fst ` set (active_sessions w)"
    by (simp add: map_of_eq_None_iff)
  then show ?thesis
    using None by (simp add: cleanup_session_def)
next
  case (Some sess)
  then show ?thesis
    by (simp add: cleanup_session_def Let_def)
qed

lemma next_cleanup_session [simp]: "next_client (cleanup_session e sid w) = next_client w"
  by (simp add: cleanup_session_def Let_def split: option.splits)

lemma lookup_cleanup_session:
  "map_of (active_sessions (cleanup_session e sid w)) k =
     (if k = sid then None else map_of (active_sessions w) k)"
  by (simp add: store_cleanup_session AList.delete_conv)

subsection \<open>The expiry sweep\<close>

lemma store_fold_cleanup:
  "active_sessions (fold (cleanup_session e) ks w) =
     filter (\<lambda>(k, s). k \<notin> set ks) (active_sessions w)"
proof (induction ks arbitrary: w)
  case Nil
  then show ?case by simp
next
  case (Cons k ks)
  have "filter (\<lambda>(k', s). k' \<notin> set ks) (AList.delete k (active_sessions w)) =
        filter (\<lambda>(k', s). k' \<notin> set (k # ks)) (active_sessions w)"
    by (induction "active_sessions w") (auto simp: AList.delete_eq intro: filter_cong)
  then show ?case
    by (simp add: Cons.IH store_cleanup_session)
qed

lemma next_fold_cleanup [simp]: "next_client (fold (cleanup_session e) ks w) = next_client w"
  by (induction ks arbitrary: w) simp_all

lemma next_expire_old_sessions [simp]: "next_client (expire_old_sessions e w) = next_client w"
  by (simp add: expire_old_sessions_def)

lemma map_of_filter_keys:
  "map_of (filter (\<lambda>(k, s). k \<notin> K) al) k' = (if k' \<in> K then None else map_of al k')"
  by (induction al) auto

lemma lookup_fold_cleanup:
  "map_of (active_sessions (fold (cleanup_session e) ks w)) k =
     (if k \<in> set ks then None else map_of (active_sessions w) k)"
  by (simp add: store_fold_cleanup map_of_filter_keys)

lemma lookup_sweep_Some:
  "map_of (active_sessions (expire_old_sessions e w)) k = Some s \<Longrightarrow>
   map_of (active_sessions w) k = Some s"
  by (simp add: expire_old_sessions_def lookup_fold_cleanup split: if_splits)

lemma lookup_sweep_None:
  "map_of (active_sessions w) k = None \<Longrightarrow>
   map_of (active_sessions (expire_old_sessions e w)) k = None"
  by (simp add: expire_old_sessions_def lookup_fold_cleanup)

text \<open>A Python dictionary holds each key once; the list of its items has distinct keys.\<close>

lemma expired_iff:
  "distinct (map fst al) \<Longrightarrow> (k, s) \<in> set al \<Longrightarrow>
     k \<in> set (expired now al) \<longleftrightarrow> now - created_at s > 600"
  by (force simp: expired_def dest: eq_key_imp_eq_value)

lemma store_expire_old_sessions:
  assumes "distinct (map fst (active_sessions w))"
  shows "active_sessions (expire_old_sessions e w) =
           filter (\<lambda>(k, s). \<not> now_sweep e - created_at s > 600) (active_sessions w)"
  unfolding expire_old_sessions_def store_fold_cleanup
  by (rule filter_cong) (auto simp: expired_iff [OF assms])

lemma map_of_filter_distinct:
  "distinct (map fst al) \<Longrightarrow>
     map_of (filter (\<lambda>(k, s). P s) al) k =
       (case map_of al k of None \<Rightarrow> None | Some s \<Rightarrow> if P s then Some s else None)"
  by (induction al) (auto split: option.splits simp: map_of_eq_None_iff image_iff)

lemma lookup_expire_old_sessions:
  assumes "distinct (map fst (active_sessions w))"
  shows "map_of (active_sessions (expire_old_sessions e w)) k =
           (case map_of (active_sessions w) k of
              None \<Rightarrow> None
            | Some s \<Rightarrow> if now_sweep e - created_at s > 600 then None else Some s)"
  by (simp add: store_expire_old_sessions [OF assms] map_of_filter_distinct [OF assms]
      split: option.splits)

lemma distinct_expire_old_sessions:
  "distinct (map fst (active_sessions w)) \<Longrightarrow>
   distinct (map fst (active_sessions (expire_old_sessions e w)))"
  by (simp add: store_expire_old_sessions distinct_map_filter)

lemma lookup_sweep_fresh:
  assumes "distinct (map fst (active_sessions w))"
      and "map_of (active_sessions w) sid = Some sess"
      and "\<not> now_sweep e - created_at sess > 600"
  shows "map_of (active_sessions (expire_old_sessions e w)) sid = Some sess"
  using assms by (simp add: lookup_expire_old_sessions)

subsection \<open>The routes on a well-formed body\<close>

lemma verify_code_known:
  assumes "sid \<noteq> []" "get d ''session_id'' = JStr sid" "truthy (get d ''phone_code'')"
  shows "verify_code e (Some d) w =
     (let w1 = expire_old_sessions e w
      in case map_of (active_sessions w1) sid of
           None \<Rightarrow> (Error ''Session expired. Please start over.'', w1)
         | Some sess \<Rightarrow>
             if now_check e - created_at sess > 600
             then (Error ''Session expired. Please request a new code.'',
                   cleanup_session e sid w1)
             else async_verify_code e sid (get d ''phone_code'') w1)"
  using assms by (simp add: verify_code_def Let_def)

lemma submit_2fa_known:
  assumes "sid \<noteq> []" "get d ''session_id'' = JStr sid" "truthy (get d ''password'')"
  shows "submit_2fa e (Some d) w =
     (let w1 = expire_old_sessions e w
      in case map_of (active_sessions w1) sid of
           None \<Rightarrow> (Error ''Session expired. Please start over.'', w1)
         | Some sess \<Rightarrow> async_submit_2fa e sid (get d ''password'') w1)"
  using assms by (simp add: submit_2fa_def Let_def)

lemma async_verify_code_retryable:
  assumes "fst (async_verify_code e sid code w) = Error ''Invalid verification code'' \<or>
           fst (async_verify_code e sid code w) =
             Error ''Verification code expired. Please request a new code.''"
  shows "active_sessions (snd (async_verify_code e sid code w)) = active_sessions w \<and>
         map_of (active_sessions w) sid \<noteq> None"
  using assms
  by (auto simp: async_verify_code_def Let_def
      split: option.splits sign_in_outcome.splits sum.splits)

lemma async_submit_2fa_retryable:
  assumes "fst (async_submit_2fa e sid pw w) = Error ''Invalid 2FA password''"
  shows "active_sessions (snd (async_submit_2fa e sid pw w)) = active_sessions w \<and>
         map_of (active_sessions w) sid \<noteq> None"
  using assms
  by (auto simp: async_submit_2fa_def Let_def
      split: option.splits sign_in_outcome.splits sum.splits)

lemma verify_code_retryable:
  assumes "fst (verify_code e body w) = Error ''Invalid verification code'' \<or>
           fst (verify_code e body w) =
             Error ''Verification code expired. Please request a new code.''"
  shows "\<exists>d sid sess. body = Some d \<and> get d ''session_id'' = JStr sid \<and>
           map_of (active_sessions w) sid = Some sess \<and>
           map_of (active_sessions (snd (verify_code e body w))) sid = Some sess"
proof -
  from assms obtain d sid sess where
    b: "body = Some d" "get d ''session_id'' = JStr sid" and
    l: "map_of (active_sessions (expire_old_sessions e w)) sid = Some sess" and
    r: "verify_code e body w =
          async_verify_code e sid (get d ''phone_code'') (expire_old_sessions e w)"
    by (auto simp: verify_code_def Let_def
        split: option.splits if_splits json.splits)
  from assms r have "active_sessions (snd (verify_code e body w)) =
      active_sessions (expire_old_sessions e w)"
    using async_verify_code_retryable by metis
  with b l show ?thesis
    by (auto dest: lookup_sweep_Some)
qed

lemma submit_2fa_retryable:
  assumes "fst (submit_2fa e body w) = Error ''Invalid 2FA password''"
  shows "\<exists>d sid sess. body = Some d \<and> get d ''session_id'' = JStr sid \<and>
           map_of (active_sessions w) sid = Some sess \<and>
           map_of (active_sessions (snd (submit_2fa e body w))) sid = Some sess"
proof -
  from assms obtain d sid sess where
    b: "body = Some d" "get d ''session_id'' = JStr sid" and
    l: "map_of (active_sessions (expire_old_sessions e w)) sid = Some sess" and
    r: "submit_2fa e body w =
          async_submit_2fa e sid (get d ''password'') (expire_old_sessions e w)"
    by (auto simp: submit_2fa_def Let_def
        split: option.splits if_splits json.splits)
  from assms r have "active_sessions (snd (submit_2fa e body w)) =
      active_sessions (expire_old_sessions e w)"
    using async_submit_2fa_retryable by metis
  with b l show ?thesis
    by (auto dest: lookup_sweep_Some)
qed

lemma retry_step:
  assumes d: "distinct (map fst (active_sessions w))"
      and l: "map_of (active_sessions w) sid = Some sess"
      and n: "sid \<noteq> []"
      and f: "retry_failure sid sess (r, e, body)"
  shows "fst (handle_request r e body w) = retry_answer (r, e, body) \<and>
         distinct (map fst (active_sessions (snd (handle_request r e body w)))) \<and>
         map_of (active_sessions (snd (handle_request r e body w))) sid = Some sess"
proof -
  from f obtain dd where body: "body = Some dd" and
    sid: "get dd ''session_id'' = JStr sid" and
    fresh: "\<not> now_sweep e - created_at sess > 600"
    by (auto simp: retry_failure_def split: option.splits)
  have look: "map_of (active_sessions (expire_old_sessions e w)) sid = Some sess"
    using d l fresh by (rule lookup_sweep_fresh)
  have dist: "distinct (map fst (active_sessions (expire_old_sessions e w)))"
    using d by (rule distinct_expire_old_sessions)
  show ?thesis
  proof (cases r)
    case Send_code
    with f body show ?thesis by (simp add: retry_failure_def)
  next
    case Verify_code
    with f body have t: "truthy (get dd ''phone_code'')"
      and c: "\<not> now_check e - created_at sess > 600"
      and s: "sign_in_res e = PhoneCodeInvalidError \<or> sign_in_res e = PhoneCodeExpiredError"
      by (simp_all add: retry_failure_def)
    have "verify_code e (Some dd) w =
            async_verify_code e sid (get dd ''phone_code'') (expire_old_sessions e w)"
      using look c by (simp add: verify_code_known [OF n sid t] Let_def)
    with s look dist show ?thesis
      unfolding Verify_code body
      by (auto simp: async_verify_code_def Let_def retry_answer_def)
  next
    case Submit_2fa
    with f body have t: "truthy (get dd ''password'')"
      and s: "sign_in_res e \<noteq> SignedIn"
      by (simp_all add: retry_failure_def)
    have "submit_2fa e (Some dd) w =
            async_submit_2fa e sid (get dd ''password'') (expire_old_sessions e w)"
      using look by (simp add: submit_2fa_known [OF n sid t] Let_def)
    with s look dist show ?thesis
      unfolding Submit_2fa body
      by (auto simp: async_submit_2fa_def Let_def retry_answer_def
          split: sign_in_outcome.splits)
  qed
qed

lemma retry_many:
  assumes "distinct (map fst (active_sessions w))"
      and "map_of (active_sessions w) sid = Some sess"
      and "sid \<noteq> []"
      and "list_all (retry_failure sid sess) rs"
  shows "fst (serve rs w) = map retry_answer rs \<and>
         map_of (active_sessions (snd (serve rs w))) sid = Some sess"
  using assms
proof (induction rs arbitrary: w)
  case Nil
  then show ?case by simp
next
  case (Cons x rs)
  obtain r e body where x: "x = (r, e, body)" by (cases x) auto
  from Cons.prems x have f: "retry_failure sid sess (r, e, body)"
    and rest: "list_all (retry_failure sid sess) rs" by simp_all
  note st = retry_step [OF Cons.prems(1,2,3) f]
  from st have ih: "fst (serve rs (snd (handle_request r e body w))) = map retry_answer rs \<and>
      map_of (active_sessions (snd (serve rs (snd (handle_request r e body w))))) sid = Some sess"
    using Cons.IH [OF _ _ Cons.prems(3) rest] by blast
  with st show ?case
    unfolding x by (simp add: case_prod_beta Let_def)
qed

lemma demo_retries_ok: "list_all (retry_failure demo_handle demo_session) demo_retries"
  by (simp add: demo_retries_def retry_failure_def demo_env_def demo_session_def
      code_body_def password_body_def get_def demo_handle_def)

lemma demo_first_answer:
  "fst (verify_code (demo_env\<lparr>sign_in_res := PhoneCodeInvalidError\<rparr>)
         (Some (code_body demo_handle ''00000'')) demo_world) =
     Error ''Invalid verification code''"
  by (simp add: verify_code_def async_verify_code_def expire_old_sessions_def expired_def
      demo_env_def demo_world_def demo_session_def demo_handle_def code_body_def get_def
      Let_def)

lemma demo_password_answer:
  "fst (submit_2fa (demo_env\<lparr>sign_in_res := SignInError ''PasswordHashInvalidError''\<rparr>)
         (Some (password_body demo_handle ''hunter2'')) demo_world) =
     Error ''Invalid 2FA password''"
  by (simp add: submit_2fa_def async_submit_2fa_def expire_old_sessions_def expired_def
      demo_env_def demo_world_def demo_session_def demo_handle_def password_body_def get_def
      Let_def)

lemma lookup_sweep_expired:
  assumes "map_of (active_sessions w) sid = Some sess"
      and "now_sweep e - created_at sess > 600"
  shows "map_of (active_sessions (expire_old_sessions e w)) sid = None"
proof -
  from assms(1) have "(sid, sess) \<in> set (active_sessions w)"
    by (rule map_of_SomeD)
  with assms(2) have "sid \<in> set (expired (now_sweep e) (active_sessions w))"
    by (force simp: expired_def)
  then show ?thesis
    by (simp add: expire_old_sessions_def lookup_fold_cleanup)
qed

lemma verify_code_unknown:
  assumes "get d ''session_id'' = JStr sid"
      and "map_of (active_sessions (expire_old_sessions e w)) sid = None"
  shows "fst (verify_code e (Some d) w) =
           (if sid \<noteq> [] \<and> truthy (get d ''phone_code'')
            then Error ''Session expired. Please start over.''
            else Error ''All fields are required'')"
  using assms by (simp add: verify_code_def Let_def)

lemma submit_2fa_unknown:
  assumes "get d ''session_id'' = JStr sid"
      and "map_of (active_sessions (expire_old_sessions e w)) sid = None"
  shows "fst (submit_2fa e (Some d) w) =
           (if sid \<noteq> [] \<and> truthy (get d ''password'')
            then Error ''Session expired. Please start over.''
            else Error ''All fields are required'')"
  using assms by (simp add: submit_2fa_def Let_def)

lemma verify_code_late:
  assumes "distinct (map fst (active_sessions w))"
      and "map_of (active_sessions w) sid = Some sess"
      and "\<not> now_sweep e - created_at sess > 600"
      and "now_check e - created_at sess > 600"
      and "sid \<noteq> []" "get d ''session_id'' = JStr sid" "truthy (get d ''phone_code'')"
  shows "fst (verify_code e (Some d) w) = Error ''Session expired. Please request a new code.'' \<and>
         map_of (active_sessions (snd (verify_code e (Some d) w))) sid = None"
proof -
  have "map_of (active_sessions (expire_old_sessions e w)) sid = Some sess"
    using assms(1-3) by (rule lookup_sweep_fresh)
  then show ?thesis
    using assms(4)
    by (simp add: verify_code_known [OF assms(5-7)] Let_def lookup_cleanup_session)
qed

subsection \<open>Successful sign-in\<close>

lemma cleanup_session_known:
  "map_of (active_sessions w) sid = Some sess \<Longrightarrow>
   cleanup_session e sid w =
     (disconnect e (client sess) w)\<lparr>active_sessions := AList.delete sid (active_sessions w)\<rparr>"
  by (simp add: cleanup_session_def Let_def)

lemma teardown_fields:
  assumes "map_of (active_sessions w) sid = Some sess"
  shows "calls (cleanup_session e sid (disconnect e (client sess) w)) =
           calls w @ [Disconnect (client sess), Disconnect (client sess)]"
    and "live (cleanup_session e sid (disconnect e (client sess) w)) =
           (if disconnect_ok e (client sess) then live w - {client sess} else live w)"
    and "map_of (active_sessions (cleanup_session e sid (disconnect e (client sess) w))) k =
           (if k = sid then None else map_of (active_sessions w) k)"
  using assms
  by (simp_all add: cleanup_session_known [of _ sid sess] live_disconnect AList.delete_conv)

lemma disconnect_save_res [simp]: "disconnect (e\<lparr>save_res := x\<rparr>) c w = disconnect e c w"
  by (simp add: disconnect_def)

lemma cleanup_session_save_res [simp]:
  "cleanup_session (e\<lparr>save_res := x\<rparr>) sid w = cleanup_session e sid w"
  by (simp add: cleanup_session_def Let_def split: option.splits)

lemma expire_old_sessions_save_res [simp]:
  "expire_old_sessions (e\<lparr>save_res := x\<rparr>) w = expire_old_sessions e w"
proof -
  have "cleanup_session (e\<lparr>save_res := x\<rparr>) = cleanup_session e"
    by (rule ext)+ simp
  then show ?thesis
    by (simp add: expire_old_sessions_def)
qed








subsection \<open>The route \<open>send_code\<close>\<close>

lemma send_code_no_body:
  "send_code e None w = (Error (''Failed to send code: '' @ body_error e), expire_old_sessions e w)"
  by (simp add: send_code_def)

lemma send_code_missing_field:
  assumes "\<not> truthy (get d ''api_id'') \<or> \<not> truthy (get d ''api_hash'') \<or>
           \<not> truthy (get d ''phone_number'')"
  shows "send_code e (Some d) w = (Error ''All fields are required'', expire_old_sessions e w)"
  using assms by (auto simp: send_code_def Let_def)

lemma send_code_not_a_number:
  assumes "truthy (get d ''api_id'')" "truthy (get d ''api_hash'')"
          "truthy (get d ''phone_number'')" "py_int (get d ''api_id'') = None"
  shows "send_code e (Some d) w = (Error ''API ID must be a number'', expire_old_sessions e w)"
  using assms by (simp add: send_code_def Let_def)

lemma send_code_valid:
  assumes "truthy (get d ''api_id'')" "truthy (get d ''api_hash'')"
          "truthy (get d ''phone_number'')" "py_int (get d ''api_id'') = Some n"
  shows "send_code e (Some d) w =
           async_send_code e n (get d ''api_hash'') (get d ''phone_number'') (token e)
             (expire_old_sessions e w)"
  using assms by (simp add: send_code_def Let_def)

lemma send_code_cases:
  obtains (no_body) "body = None"
      "send_code e body w =
         (Error (''Failed to send code: '' @ body_error e), expire_old_sessions e w)"
  | (missing) d where "body = Some d"
      "send_code e body w = (Error ''All fields are required'', expire_old_sessions e w)"
  | (not_a_number) d where "body = Some d"
      "send_code e body w = (Error ''API ID must be a number'', expire_old_sessions e w)"
  | (valid) d n where "body = Some d" "truthy (get d ''api_id'')"
      "truthy (get d ''api_hash'')" "truthy (get d ''phone_number'')"
      "py_int (get d ''api_id'') = Some n"
      "send_code e body w =
         async_send_code e n (get d ''api_hash'') (get d ''phone_number'') (token e)
           (expire_old_sessions e w)"
proof (cases body)
  case None
  show ?thesis
    by (rule no_body) (simp_all add: None send_code_no_body)
next
  case (Some d)
  show ?thesis
  proof (cases "truthy (get d ''api_id'') \<and> truthy (get d ''api_hash'') \<and>
                truthy (get d ''phone_number'')")
    case False
    then have "\<not> truthy (get d ''api_id'') \<or> \<not> truthy (get d ''api_hash'') \<or>
           \<not> truthy (get d ''phone_number'')" by blast
    then show ?thesis
      by (intro missing [of d]) (simp_all add: Some send_code_missing_field)
  next
    case True
    then have t: "truthy (get d ''api_id'')" "truthy (get d ''api_hash'')"
      "truthy (get d ''phone_number'')" by simp_all
    show ?thesis
    proof (cases "py_int (get d ''api_id'')")
      case None
      show ?thesis
        by (rule not_a_number [of d])
           (simp_all add: Some send_code_not_a_number [OF t None])
    next
      case (Some n)
      show ?thesis
        by (rule valid [of d n])
           (simp_all add: \<open>body = Some d\<close> t Some send_code_valid [OF t Some])
    qed
  qed
qed

text \<open>What the worker does, outcome by outcome.\<close>

lemma async_send_code_connect_failed:
  assumes "connect_res e = Some err"
  shows "async_send_code e n ahash ph sid w =
           (Error (''Failed to connect: '' @ err),
            disconnect e (next_client w)
              (log_call (Connect (next_client w)) (w\<lparr>next_client := Suc (next_client w)\<rparr>)))"
  using assms by (simp add: async_send_code_def Let_def)

lemma async_send_code_connected:
  assumes "connect_res e = None"
  shows "async_send_code e n ahash ph sid w =
     (let c = next_client w;
          w2 = log_call (SendCodeRequest c ph)
                 ((log_call (Connect c) (w\<lparr>next_client := Suc c\<rparr>))\<lparr>live := insert c (live w)\<rparr>)
      in (case send_code_res e of
            ApiIdInvalidError \<Rightarrow> (Error ''Invalid API ID'', disconnect e c w2)
          | PhoneNumberInvalidError \<Rightarrow> (Error ''Invalid phone number'', disconnect e c w2)
          | SendError err \<Rightarrow> (Error (''Failed to send code: '' @ err), disconnect e c w2)
          | Sent pch \<Rightarrow>
              (Ok_session_id sid,
               w2\<lparr>active_sessions :=
                    AList.update sid
                      \<lparr>client = c, api_id = n, api_hash = ahash, phone = ph,
                       phone_code_hash = pch, created_at = now_create e\<rparr>
                      (active_sessions w)\<rparr>)))"
  using assms by (simp add: async_send_code_def Let_def split: send_outcome.splits)




lemma sweep_nothing_expired:
  assumes "\<forall>(sid, s) \<in> set (active_sessions w). \<not> now_sweep e - created_at s > 600"
  shows "expire_old_sessions e w = w"
proof -
  from assms have "expired (now_sweep e) (active_sessions w) = []"
    by (auto simp: expired_def filter_empty_conv)
  then show ?thesis by (simp add: expire_old_sessions_def)
qed


subsection \<open>The calls a request makes\<close>

lemma calls_cleanup_session:
  "calls (cleanup_session e sid w) =
     calls w @ (case map_of (active_sessions w) sid of
                  None \<Rightarrow> [] | Some s \<Rightarrow> [Disconnect (client s)])"
  by (simp add: cleanup_session_def Let_def split: option.splits)

lemma calls_fold_cleanup:
  "\<exists>cs. calls (fold (cleanup_session e) ks w) = calls w @ cs \<and>
        (\<forall>x \<in> set cs. sign_in_client x = None) \<and>
        (\<forall>sid s. sid \<in> set ks \<and> map_of (active_sessions w) sid = Some s \<longrightarrow>
           Disconnect (client s) \<in> set cs)"
proof (induction ks arbitrary: w)
  case Nil
  then show ?case by simp
next
  case (Cons k ks)
  let ?w1 = "cleanup_session e k w"
  let ?c1 = "case map_of (active_sessions w) k of None \<Rightarrow> [] | Some s \<Rightarrow> [Disconnect (client s)]"
  from Cons.IH [of ?w1] obtain cs where
    cs: "calls (fold (cleanup_session e) ks ?w1) = calls ?w1 @ cs"
    and ns: "\<forall>x \<in> set cs. sign_in_client x = None"
    and ds: "\<forall>sid s. sid \<in> set ks \<and> map_of (active_sessions ?w1) sid = Some s \<longrightarrow>
           Disconnect (client s) \<in> set cs"
    by blast
  have "calls (fold (cleanup_session e) (k # ks) w) = calls w @ (?c1 @ cs)"
    using cs by (simp add: calls_cleanup_session)
  moreover have "\<forall>x \<in> set (?c1 @ cs). sign_in_client x = None"
    using ns by (auto split: option.splits)
  moreover have "Disconnect (client s) \<in> set (?c1 @ cs)"
    if "sid \<in> set (k # ks) \<and> map_of (active_sessions w) sid = Some s" for sid s
  proof (cases "sid = k")
    case True
    with that show ?thesis by simp
  next
    case False
    with that have "sid \<in> set ks" and "map_of (active_sessions ?w1) sid = Some s"
      by (simp_all add: lookup_cleanup_session)
    with ds show ?thesis by auto
  qed
  ultimately show ?case by blast
qed

lemma calls_expire_old_sessions:
  "\<exists>cs. calls (expire_old_sessions e w) = calls w @ cs \<and>
        (\<forall>x \<in> set cs. sign_in_client x = None) \<and>
        (\<forall>sid s. map_of (active_sessions w) sid = Some s \<and> now_sweep e - created_at s > 600 \<longrightarrow>
           Disconnect (client s) \<in> set cs)"
proof -
  let ?ks = "expired (now_sweep e) (active_sessions w)"
  from calls_fold_cleanup [of e ?ks w] obtain cs where
    cs: "calls (fold (cleanup_session e) ?ks w) = calls w @ cs"
    and ns: "\<forall>x \<in> set cs. sign_in_client x = None"
    and ds: "\<forall>sid s. sid \<in> set ?ks \<and> map_of (active_sessions w) sid = Some s \<longrightarrow>
           Disconnect (client s) \<in> set cs"
    by blast
  have "Disconnect (client s) \<in> set cs"
    if "map_of (active_sessions w) sid = Some s \<and> now_sweep e - created_at s > 600" for sid s
  proof -
    from that have "(sid, s) \<in> set (active_sessions w)" by (auto dest: map_of_SomeD)
    with that have "sid \<in> set ?ks" by (force simp: expired_def)
    with ds that show ?thesis by blast
  qed
  with cs ns show ?thesis
    unfolding expire_old_sessions_def by blast
qed

lemma lookup_sweep_Some_fresh:
  assumes "map_of (active_sessions (expire_old_sessions e w)) k = Some s"
  shows "\<not> now_sweep e - created_at s > 600"
proof
  assume x: "now_sweep e - created_at s > 600"
  from assms have "map_of (active_sessions w) k = Some s" by (rule lookup_sweep_Some)
  from lookup_sweep_expired [OF this x] assms show False by simp
qed

lemma sweep_idem:
  assumes "distinct (map fst (active_sessions w))"
  shows "expire_old_sessions e (expire_old_sessions e w) = expire_old_sessions e w"
proof (rule sweep_nothing_expired)
  show "\<forall>(sid, s) \<in> set (active_sessions (expire_old_sessions e w)).
          \<not> now_sweep e - created_at s > 600"
    by (auto simp: store_expire_old_sessions [OF assms])
qed

lemma handle_request_swept:
  assumes "expire_old_sessions e w' = expire_old_sessions e w"
  shows "handle_request r e body w' = handle_request r e body w"
  using assms
  by (cases r) (simp_all add: send_code_def verify_code_def submit_2fa_def)

lemma async_verify_code_calls:
  assumes "map_of (active_sessions w) sid = Some s"
  shows "\<exists>cs. calls (snd (async_verify_code e sid code w)) = calls w @ cs \<and>
           (\<forall>x \<in> set cs. \<forall>c. sign_in_client x = Some c \<longrightarrow> c = client s)"
proof -
  let ?w1 = "log_call (SaveSession (client s))
               (log_call (SignInCode (client s) (phone s) code) w)"
  have l: "map_of (active_sessions ?w1) sid = Some s" using assms by simp
  show ?thesis
  proof (cases "sign_in_res e")
    case SignedIn
    then show ?thesis
      using assms teardown_fields(1) [OF l, of e]
      by (cases "save_res e") (simp_all add: async_verify_code_def Let_def)
  qed (use assms in \<open>simp_all add: async_verify_code_def Let_def\<close>)
qed

lemma async_submit_2fa_calls:
  assumes "map_of (active_sessions w) sid = Some s"
  shows "\<exists>cs. calls (snd (async_submit_2fa e sid pw w)) = calls w @ cs \<and>
           (\<forall>x \<in> set cs. \<forall>c. sign_in_client x = Some c \<longrightarrow> c = client s)"
proof -
  let ?w1 = "log_call (SaveSession (client s))
               (log_call (SignInPassword (client s) pw) w)"
  have l: "map_of (active_sessions ?w1) sid = Some s" using assms by simp
  show ?thesis
  proof (cases "sign_in_res e")
    case SignedIn
    then show ?thesis
      using assms teardown_fields(1) [OF l, of e]
      by (cases "save_res e") (simp_all add: async_submit_2fa_def Let_def)
  qed (use assms in \<open>simp_all add: async_submit_2fa_def Let_def\<close>)
qed

lemma async_send_code_calls_kind:
  "\<exists>cs. calls (snd (async_send_code e n ahash ph sid w)) = calls w @ cs \<and>
        (\<forall>x \<in> set cs. sign_in_client x = None)"
proof (cases "connect_res e")
  case (Some err)
  show ?thesis
    unfolding async_send_code_connect_failed [OF Some] by simp
next
  case None
  show ?thesis
    unfolding async_send_code_connected [OF None]
    by (cases "send_code_res e") (simp_all add: Let_def)
qed

lemma send_code_calls:
  "\<exists>cs. calls (snd (send_code e body w)) = calls (expire_old_sessions e w) @ cs \<and>
        (\<forall>x \<in> set cs. sign_in_client x = None)"
proof (cases rule: send_code_cases [where body = body and e = e and w = w])
  case (valid d n)
  show ?thesis
    unfolding valid(6) by (rule async_send_code_calls_kind)
qed simp_all

lemma verify_code_calls:
  "\<exists>cs. calls (snd (verify_code e body w)) = calls (expire_old_sessions e w) @ cs \<and>
        (\<forall>x \<in> set cs. \<forall>c. sign_in_client x = Some c \<longrightarrow>
           (\<exists>sid s. map_of (active_sessions (expire_old_sessions e w)) sid = Some s \<and>
                    client s = c))"
proof (cases body)
  case None
  then show ?thesis by (simp add: verify_code_def)
next
  case (Some d)
  let ?ws = "expire_old_sessions e w"
  show ?thesis
  proof (cases "truthy (get d ''session_id'') \<and> truthy (get d ''phone_code'')")
    case False
    with Some show ?thesis by (auto simp: verify_code_def Let_def)
  next
    case True
    show ?thesis
    proof (cases "get d ''session_id''")
      case (JStr sid)
      with True have t: "sid \<noteq> []" "truthy (get d ''phone_code'')" by simp_all
      note eq = verify_code_known [OF t(1) JStr t(2), of e w]
      show ?thesis
      proof (cases "map_of (active_sessions ?ws) sid")
        case None
        then show ?thesis unfolding Some eq by simp
      next
        case (Some s)
        show ?thesis
        proof (cases "now_check e - created_at s > 600")
          case True
          with Some show ?thesis
            unfolding \<open>body = Some d\<close> eq by (simp add: calls_cleanup_session)
        next
          case False
          from async_verify_code_calls [OF Some, of e "get d ''phone_code''"]
          obtain cs where
            "calls (snd (async_verify_code e sid (get d ''phone_code'') ?ws)) = calls ?ws @ cs"
            "\<forall>x \<in> set cs. \<forall>c. sign_in_client x = Some c \<longrightarrow> c = client s"
            by blast
          with Some False show ?thesis
            unfolding \<open>body = Some d\<close> eq by auto
        qed
      qed
    qed (use Some True in \<open>simp_all add: verify_code_def Let_def\<close>)
  qed
qed

lemma submit_2fa_calls:
  "\<exists>cs. calls (snd (submit_2fa e body w)) = calls (expire_old_sessions e w) @ cs \<and>
        (\<forall>x \<in> set cs. \<forall>c. sign_in_client x = Some c \<longrightarrow>
           (\<exists>sid s. map_of (active_sessions (expire_old_sessions e w)) sid = Some s \<and>
                    client s = c))"
proof (cases body)
  case None
  then show ?thesis by (simp add: submit_2fa_def)
next
  case (Some d)
  let ?ws = "expire_old_sessions e w"
  show ?thesis
  proof (cases "truthy (get d ''session_id'') \<and> truthy (get d ''password'')")
    case False
    with Some show ?thesis by (auto simp: submit_2fa_def Let_def)
  next
    case True
    show ?thesis
    proof (cases "get d ''session_id''")
      case (JStr sid)
      with True have t: "sid \<noteq> []" "truthy (get d ''password'')" by simp_all
      note eq = submit_2fa_known [OF t(1) JStr t(2), of e w]
      show ?thesis
      proof (cases "map_of (active_sessions ?ws) sid")
        case None
        then show ?thesis unfolding Some eq by simp
      next
        case (Some s)
        from async_submit_2fa_calls [OF Some, of e "get d ''password''"]
        obtain cs where
          "calls (snd (async_submit_2fa e sid (get d ''password'') ?ws)) = calls ?ws @ cs"
          "\<forall>x \<in> set cs. \<forall>c. sign_in_client x = Some c \<longrightarrow> c = client s"
          by blast
        with Some show ?thesis
          unfolding \<open>body = Some d\<close> eq by auto
      qed
    qed (use Some True in \<open>simp_all add: submit_2fa_def Let_def\<close>)
  qed
qed

lemma handle_request_calls:
  "\<exists>cs. calls (snd (handle_request r e body w)) = calls (expire_old_sessions e w) @ cs \<and>
        (\<forall>x \<in> set cs. \<forall>c. sign_in_client x = Some c \<longrightarrow>
           (\<exists>sid s. map_of (active_sessions (expire_old_sessions e w)) sid = Some s \<and>
                    client s = c))"
proof (cases r)
  case Send_code
  from send_code_calls [of e body w] show ?thesis
    unfolding Send_code by auto
next
  case Verify_code
  from verify_code_calls [of e body w] show ?thesis
    unfolding Verify_code by simp
next
  case Submit_2fa
  from submit_2fa_calls [of e body w] show ?thesis
    unfolding Submit_2fa by simp
qed

subsection \<open>Records and connections stay together\<close>

lemma live_log_call_upd [simp]: "live (w\<lparr>calls := cs\<rparr>) = live w"
  by simp

lemma matches_calls [simp]:
  "store_matches_connections (log_call c w) = store_matches_connections w"
  by (simp add: store_matches_connections_def)

lemma matches_remove:
  assumes inv: "store_matches_connections w"
      and l: "map_of (active_sessions w) sid = Some s"
      and st: "active_sessions w' = AList.delete sid (active_sessions w)"
      and lv: "live w' = live w - {client s}"
      and nx: "next_client w' = next_client w"
  shows "store_matches_connections w'"
proof -
  let ?al = "active_sessions w"
  let ?f = "client \<circ> snd"
  let ?al' = "filter (\<lambda>p. sid \<noteq> fst p) ?al"
  from inv have dk: "distinct (map fst ?al)" and dc: "distinct (map ?f ?al)"
    and lw: "live w = set (map ?f ?al)" and b: "\<forall>c \<in> live w. c < next_client w"
    by (simp_all add: store_matches_connections_def)
  have al': "active_sessions w' = ?al'"
    using st by (simp add: AList.delete_eq split_def)
  have inj: "inj_on ?f (set ?al)"
    using dc by (simp add: distinct_map)
  have mem: "(sid, s) \<in> set ?al" using l by (rule map_of_SomeD)
  have "set (map ?f ?al') = set (map ?f ?al) - {client s}"
  proof (intro set_eqI iffI)
    fix c assume "c \<in> set (map ?f ?al')"
    then obtain k v where kv: "(k, v) \<in> set ?al" "k \<noteq> sid" "c = client v" by auto
    have "client v \<noteq> client s"
    proof
      assume "client v = client s"
      then have "(client \<circ> snd) (k, v) = (client \<circ> snd) (sid, s)" by simp
      from inj_onD [OF inj this kv(1) mem] have "(k, v) = (sid, s)" .
      with kv(2) show False by simp
    qed
    with kv show "c \<in> set (map ?f ?al) - {client s}" by force
  next
    fix c assume "c \<in> set (map ?f ?al) - {client s}"
    then obtain k v where kv: "(k, v) \<in> set ?al" "c = client v" "client v \<noteq> client s"
      by auto
    have "k \<noteq> sid"
    proof
      assume "k = sid"
      with kv(1) mem dk have "v = s" by (auto dest: eq_key_imp_eq_value)
      with kv(3) show False by simp
    qed
    with kv show "c \<in> set (map ?f ?al')" by force
  qed
  with lw lv have "live w' = set (map ?f ?al')" by simp
  moreover have "distinct (map fst ?al')" using dk by (rule distinct_map_filter)
  moreover have "distinct (map ?f ?al')" using dc by (rule distinct_map_filter)
  moreover have "\<forall>c \<in> live w'. c < next_client w'" using b lv nx by simp
  ultimately show ?thesis
    unfolding store_matches_connections_def al' by simp
qed

lemma matches_cleanup_session:
  assumes "store_matches_connections w" and "disconnect_ok e = (\<lambda>c. True)"
  shows "store_matches_connections (cleanup_session e sid w)"
proof (cases "map_of (active_sessions w) sid")
  case None
  with assms show ?thesis by (simp add: cleanup_session_def)
next
  case (Some s)
  show ?thesis
    using assms(1) Some
  proof (rule matches_remove)
    show "active_sessions (cleanup_session e sid w) = AList.delete sid (active_sessions w)"
      by (rule store_cleanup_session)
    show "live (cleanup_session e sid w) = live w - {client s}"
      using Some assms(2) by (simp add: cleanup_session_known [OF Some] live_disconnect)
    show "next_client (cleanup_session e sid w) = next_client w" by simp
  qed
qed

lemma matches_fold_cleanup:
  assumes "store_matches_connections w" and "disconnect_ok e = (\<lambda>c. True)"
  shows "store_matches_connections (fold (cleanup_session e) ks w)"
  using assms(1)
  by (induction ks arbitrary: w) (simp_all add: matches_cleanup_session assms(2))

lemma matches_expire_old_sessions:
  assumes "store_matches_connections w" and "disconnect_ok e = (\<lambda>c. True)"
  shows "store_matches_connections (expire_old_sessions e w)"
  unfolding expire_old_sessions_def using assms by (rule matches_fold_cleanup)

lemma matches_teardown:
  assumes inv: "store_matches_connections w" and ok: "disconnect_ok e = (\<lambda>c. True)"
      and l: "map_of (active_sessions w) sid = Some s"
  shows "store_matches_connections (cleanup_session e sid (disconnect e (client s) w))"
  using inv l
proof (rule matches_remove)
  let ?w1 = "disconnect e (client s) w"
  have l1: "map_of (active_sessions ?w1) sid = Some s" using l by simp
  show "active_sessions (cleanup_session e sid ?w1) = AList.delete sid (active_sessions w)"
    by (simp add: store_cleanup_session)
  show "live (cleanup_session e sid ?w1) = live w - {client s}"
    using ok by (auto simp: cleanup_session_known [OF l1] live_disconnect)
  show "next_client (cleanup_session e sid ?w1) = next_client w" by simp
qed

lemma update_absent:
  "map_of al k = None \<Longrightarrow> AList.update k v al = al @ [(k, v)]"
  by (induction al) (auto split: if_splits)

lemma matches_async_send_code:
  assumes inv: "store_matches_connections w" and ok: "disconnect_ok e = (\<lambda>c. True)"
      and fresh: "map_of (active_sessions w) sid = None"
  shows "store_matches_connections (snd (async_send_code e n ahash ph sid w))"
proof -
  let ?c = "next_client w"
  from inv have dk: "distinct (map fst (active_sessions w))"
    and dc: "distinct (map (client \<circ> snd) (active_sessions w))"
    and lw: "live w = set (map (client \<circ> snd) (active_sessions w))"
    and b: "\<forall>c \<in> live w. c < ?c"
    by (simp_all add: store_matches_connections_def)
  from b have nc: "?c \<notin> live w" by auto
  from b have b': "\<forall>c \<in> live w. c < Suc ?c" by auto
  from fresh have nk: "sid \<notin> fst ` set (active_sessions w)"
    by (simp add: map_of_eq_None_iff)
  show ?thesis
  proof (cases "connect_res e")
    case (Some err)
    show ?thesis
      unfolding async_send_code_connect_failed [OF Some]
      using dk dc lw b' nc ok
      by (simp add: store_matches_connections_def live_disconnect)
  next
    case None
    show ?thesis
      unfolding async_send_code_connected [OF None]
      using dk dc lw b' nc ok nk
      by (cases "send_code_res e")
         (simp_all add: store_matches_connections_def live_disconnect Let_def
            update_absent [OF fresh])
  qed
qed

lemma matches_async_verify_code:
  assumes inv: "store_matches_connections w" and ok: "disconnect_ok e = (\<lambda>c. True)"
  shows "store_matches_connections (snd (async_verify_code e sid code w))"
proof (cases "map_of (active_sessions w) sid")
  case None
  with inv show ?thesis by (simp add: async_verify_code_def)
next
  case (Some s)
  let ?w2 = "log_call (SaveSession (client s))
               (log_call (SignInCode (client s) (phone s) code) w)"
  have "store_matches_connections (cleanup_session e sid (disconnect e (client s) ?w2))"
    by (rule matches_teardown) (use inv ok Some in simp_all)
  with inv Some show ?thesis
    by (cases "sign_in_res e"; cases "save_res e")
       (simp_all add: async_verify_code_def Let_def)
qed

lemma matches_async_submit_2fa:
  assumes inv: "store_matches_connections w" and ok: "disconnect_ok e = (\<lambda>c. True)"
  shows "store_matches_connections (snd (async_submit_2fa e sid pw w))"
proof (cases "map_of (active_sessions w) sid")
  case None
  with inv show ?thesis by (simp add: async_submit_2fa_def)
next
  case (Some s)
  let ?w2 = "log_call (SaveSession (client s))
               (log_call (SignInPassword (client s) pw) w)"
  have "store_matches_connections (cleanup_session e sid (disconnect e (client s) ?w2))"
    by (rule matches_teardown) (use inv ok Some in simp_all)
  with inv Some show ?thesis
    by (cases "sign_in_res e"; cases "save_res e")
       (simp_all add: async_submit_2fa_def Let_def)
qed

text \<open>The world a route leaves is one of a few shapes over the swept world.\<close>

lemma verify_code_world:
  "snd (verify_code e body w) = expire_old_sessions e w \<or>
   (\<exists>sid. snd (verify_code e body w) = cleanup_session e sid (expire_old_sessions e w)) \<or>
   (\<exists>sid code. snd (verify_code e body w) =
      snd (async_verify_code e sid code (expire_old_sessions e w)))"
  by (auto simp: verify_code_def Let_def split: option.splits json.splits)

lemma submit_2fa_world:
  "snd (submit_2fa e body w) = expire_old_sessions e w \<or>
   (\<exists>sid pw. snd (submit_2fa e body w) =
      snd (async_submit_2fa e sid pw (expire_old_sessions e w)))"
  by (auto simp: submit_2fa_def Let_def split: option.splits json.splits)

lemma send_code_world:
  "snd (send_code e body w) = expire_old_sessions e w \<or>
   (\<exists>n ahash ph. snd (send_code e body w) =
      snd (async_send_code e n ahash ph (token e) (expire_old_sessions e w)))"
  by (cases rule: send_code_cases [where body = body and e = e and w = w]) auto

lemma matches_handle_request:
  assumes inv: "store_matches_connections w" and ok: "disconnect_ok e = (\<lambda>c. True)"
      and fresh: "r = Send_code \<longrightarrow>
                  map_of (active_sessions (expire_old_sessions e w)) (token e) = None"
  shows "store_matches_connections (snd (handle_request r e body w))"
proof -
  have ws: "store_matches_connections (expire_old_sessions e w)"
    using inv ok by (rule matches_expire_old_sessions)
  show ?thesis
  proof (cases r)
    case Send_code
    with fresh have f: "map_of (active_sessions (expire_old_sessions e w)) (token e) = None"
      by simp
    from send_code_world [of e body w] show ?thesis
      unfolding Send_code using ws matches_async_send_code [OF ws ok f] by auto
  next
    case Verify_code
    from verify_code_world [of e body w] show ?thesis
      unfolding Verify_code
      using ws matches_cleanup_session [OF ws ok] matches_async_verify_code [OF ws ok]
      by auto
  next
    case Submit_2fa
    from submit_2fa_world [of e body w] show ?thesis
      unfolding Submit_2fa
      using ws matches_async_submit_2fa [OF ws ok] by auto
  qed
qed

text \<open>A record found after a request was there before, or belongs to the new client.\<close>

lemma async_send_code_lookup:
  assumes "map_of (active_sessions (snd (async_send_code e n ahash ph sid w))) k = Some s"
  shows "map_of (active_sessions w) k = Some s \<or> client s = next_client w"
proof (cases "connect_res e")
  case (Some err)
  with assms show ?thesis
    by (simp add: async_send_code_connect_failed [OF Some])
next
  case None
  from assms show ?thesis
    unfolding async_send_code_connected [OF None]
    by (cases "send_code_res e")
       (auto simp: Let_def AList.update_conv split: if_splits)
qed

lemma async_verify_code_lookup:
  assumes "map_of (active_sessions (snd (async_verify_code e sid code w))) k = Some s"
  shows "map_of (active_sessions w) k = Some s"
proof (cases "map_of (active_sessions w) sid")
  case None
  with assms show ?thesis by (simp add: async_verify_code_def)
next
  case (Some r)
  let ?w2 = "log_call (SaveSession (client r))
               (log_call (SignInCode (client r) (phone r) code) w)"
  have l: "map_of (active_sessions ?w2) sid = Some r" using Some by simp
  from assms Some show ?thesis
    by (cases "sign_in_res e"; cases "save_res e")
       (simp_all add: async_verify_code_def Let_def teardown_fields(3) [OF l]
          split: if_splits)
qed

lemma async_submit_2fa_lookup:
  assumes "map_of (active_sessions (snd (async_submit_2fa e sid pw w))) k = Some s"
  shows "map_of (active_sessions w) k = Some s"
proof (cases "map_of (active_sessions w) sid")
  case None
  with assms show ?thesis by (simp add: async_submit_2fa_def)
next
  case (Some r)
  let ?w2 = "log_call (SaveSession (client r))
               (log_call (SignInPassword (client r) pw) w)"
  have l: "map_of (active_sessions ?w2) sid = Some r" using Some by simp
  from assms Some show ?thesis
    by (cases "sign_in_res e"; cases "save_res e")
       (simp_all add: async_submit_2fa_def Let_def teardown_fields(3) [OF l]
          split: if_splits)
qed

lemma handle_request_lookup:
  assumes "map_of (active_sessions (snd (handle_request r e body w))) k = Some s"
  shows "map_of (active_sessions w) k = Some s \<or> client s = next_client w"
proof (cases r)
  case Send_code
  from send_code_world [of e body w] assms show ?thesis
    unfolding Send_code
    by (auto dest: lookup_sweep_Some dest!: async_send_code_lookup)
next
  case Verify_code
  from verify_code_world [of e body w] assms show ?thesis
    unfolding Verify_code
    by (auto simp: lookup_cleanup_session split: if_splits
        dest: lookup_sweep_Some dest!: async_verify_code_lookup)
next
  case Submit_2fa
  from submit_2fa_world [of e body w] assms show ?thesis
    unfolding Submit_2fa
    by (auto dest: lookup_sweep_Some dest!: async_submit_2fa_lookup)
qed

lemma removed_record_disconnected:
  assumes inv: "store_matches_connections w" and inv': "store_matches_connections w'"
      and step: "\<And>k s'. map_of (active_sessions w') k = Some s' \<Longrightarrow>
                  map_of (active_sessions w) k = Some s' \<or> client s' = next_client w"
      and l: "map_of (active_sessions w) sid = Some s"
      and n: "map_of (active_sessions w') sid = None"
  shows "client s \<notin> live w'"
proof
  assume "client s \<in> live w'"
  with inv' obtain k' s' where m': "(k', s') \<in> set (active_sessions w')"
    and c: "client s' = client s"
    by (auto simp: store_matches_connections_def)
  from inv' m' have l': "map_of (active_sessions w') k' = Some s'"
    by (simp add: store_matches_connections_def)
  from l have mem: "(sid, s) \<in> set (active_sessions w)" by (rule map_of_SomeD)
  with inv have lv: "client s \<in> live w" and b: "client s < next_client w"
    by (force simp: store_matches_connections_def)+
  from step [OF l'] show False
  proof
    assume "map_of (active_sessions w) k' = Some s'"
    then have mem': "(k', s') \<in> set (active_sessions w)" by (rule map_of_SomeD)
    from inv have "inj_on (client \<circ> snd) (set (active_sessions w))"
      by (simp add: store_matches_connections_def distinct_map)
    moreover from c have "(client \<circ> snd) (k', s') = (client \<circ> snd) (sid, s)" by simp
    ultimately have "(k', s') = (sid, s)" using mem' mem by (rule inj_onD)
    with l' n show False by simp
  next
    assume "client s' = next_client w"
    with c b show False by simp
  qed
qed

section \<open>The claims\<close>

text \<open>
  C10. For \<open>submit_2fa\<close> on a known handle, whatever exception the sign-in call
  raises (a wrong password, a transport failure, anything else), the caller gets
  the single answer ``Invalid 2FA password'', the only effect beyond the expiry
  sweep is the logged sign-in call, and the session record stays in the store as
  it was.
\<close>

theorem submit_2fa_sign_in_failure:
  assumes "distinct (map fst (active_sessions w))"
      and "map_of (active_sessions w) sid = Some sess"
      and "\<not> now_sweep e - created_at sess > 600"
      and "sid \<noteq> []"
      and "get d ''session_id'' = JStr sid"
      and "truthy (get d ''password'')"
      and "sign_in_res e \<noteq> SignedIn"
  shows "fst (submit_2fa e (Some d) w) = Error ''Invalid 2FA password'' \<and>
         snd (submit_2fa e (Some d) w) =
           log_call (SignInPassword (client sess) (get d ''password''))
             (expire_old_sessions e w) \<and>
         map_of (active_sessions (snd (submit_2fa e (Some d) w))) sid = Some sess"
proof -
  have look: "map_of (active_sessions (expire_old_sessions e w)) sid = Some sess"
    using assms(1-3) by (rule lookup_sweep_fresh)
  have run: "submit_2fa e (Some d) w =
               async_submit_2fa e sid (get d ''password'') (expire_old_sessions e w)"
    using assms(4-6) look by (simp add: submit_2fa_def Let_def)
  have "async_submit_2fa e sid (get d ''password'') (expire_old_sessions e w) =
          (Error ''Invalid 2FA password'',
           log_call (SignInPassword (client sess) (get d ''password''))
             (expire_old_sessions e w))"
    using look assms(7)
    by (simp add: async_submit_2fa_def Let_def split: sign_in_outcome.splits)
  with run look show ?thesis by simp
qed

theorem submit_2fa_sign_in_failure_witness:
  "fst (submit_2fa (demo_env\<lparr>sign_in_res := SignInError ''ConnectionError''\<rparr>)
          (Some (password_body demo_handle ''hunter2'')) demo_world) =
     Error ''Invalid 2FA password'' \<and>
   snd (submit_2fa (demo_env\<lparr>sign_in_res := SignInError ''ConnectionError''\<rparr>)
          (Some (password_body demo_handle ''hunter2'')) demo_world) =
     log_call (SignInPassword (client demo_session)
                 (get (password_body demo_handle ''hunter2'') ''password''))
       (expire_old_sessions (demo_env\<lparr>sign_in_res := SignInError ''ConnectionError''\<rparr>)
          demo_world) \<and>
   map_of (active_sessions
       (snd (submit_2fa (demo_env\<lparr>sign_in_res := SignInError ''ConnectionError''\<rparr>)
          (Some (password_body demo_handle ''hunter2'')) demo_world))) demo_handle =
     Some demo_session"
  by (rule submit_2fa_sign_in_failure)
     (simp_all add: demo_world_def demo_handle_def demo_session_def demo_env_def
        password_body_def get_def)

text \<open>
  C7. When \<open>verify_code\<close> answers ``Invalid verification code'' or ``Verification
  code expired'', or \<open>submit_2fa\<close> answers ``Invalid 2FA password'', the request named
  a stored session and that record is in the store afterwards exactly as before.
  Any sequence of such failed attempts on one handle, each made within the 600
  seconds of the record, gets these answers one by one and leaves the record in
  place, so the caller can go on retrying.
\<close>

theorem retryable_failure_keeps_session:
  "(fst (verify_code e body w) = Error ''Invalid verification code'' \<or>
    fst (verify_code e body w) =
      Error ''Verification code expired. Please request a new code.'' \<longrightarrow>
      (\<exists>d sid sess. body = Some d \<and> get d ''session_id'' = JStr sid \<and>
         map_of (active_sessions w) sid = Some sess \<and>
         map_of (active_sessions (snd (verify_code e body w))) sid = Some sess)) \<and>
   (fst (submit_2fa e body w) = Error ''Invalid 2FA password'' \<longrightarrow>
      (\<exists>d sid sess. body = Some d \<and> get d ''session_id'' = JStr sid \<and>
         map_of (active_sessions w) sid = Some sess \<and>
         map_of (active_sessions (snd (submit_2fa e body w))) sid = Some sess)) \<and>
   (distinct (map fst (active_sessions w)) \<and> map_of (active_sessions w) h = Some s \<and>
    h \<noteq> [] \<and> list_all (retry_failure h s) rs \<longrightarrow>
      fst (serve rs w) = map retry_answer rs \<and>
      map_of (active_sessions (snd (serve rs w))) h = Some s)"
  using verify_code_retryable [of e body w] submit_2fa_retryable [of e body w]
    retry_many [of w h s rs]
  by blast

theorem retryable_failure_keeps_session_witness:
  "fst (verify_code (demo_env\<lparr>sign_in_res := PhoneCodeInvalidError\<rparr>)
         (Some (code_body demo_handle ''00000'')) demo_world) =
     Error ''Invalid verification code'' \<and>
   map_of (active_sessions
     (snd (verify_code (demo_env\<lparr>sign_in_res := PhoneCodeInvalidError\<rparr>)
         (Some (code_body demo_handle ''00000'')) demo_world))) demo_handle =
     Some demo_session \<and>
   fst (submit_2fa (demo_env\<lparr>sign_in_res := SignInError ''PasswordHashInvalidError''\<rparr>)
         (Some (password_body demo_handle ''hunter2'')) demo_world) =
     Error ''Invalid 2FA password'' \<and>
   map_of (active_sessions
     (snd (submit_2fa (demo_env\<lparr>sign_in_res := SignInError ''PasswordHashInvalidError''\<rparr>)
         (Some (password_body demo_handle ''hunter2'')) demo_world))) demo_handle =
     Some demo_session \<and>
   fst (serve demo_retries demo_world) =
     [Error ''Invalid verification code'',
      Error ''Verification code expired. Please request a new code.'',
      Error ''Invalid 2FA password''] \<and>
   map_of (active_sessions (snd (serve demo_retries demo_world))) demo_handle =
     Some demo_session"
proof -
  let ?e1 = "demo_env\<lparr>sign_in_res := PhoneCodeInvalidError\<rparr>"
  let ?b1 = "code_body demo_handle ''00000''"
  let ?e2 = "demo_env\<lparr>sign_in_res := SignInError ''PasswordHashInvalidError''\<rparr>"
  let ?b2 = "password_body demo_handle ''hunter2''"
  have d: "distinct (map fst (active_sessions demo_world))"
    and l: "map_of (active_sessions demo_world) demo_handle = Some demo_session"
    and n: "demo_handle \<noteq> []"
    by (simp_all add: demo_world_def demo_handle_def)
  have g1: "get ?b1 ''session_id'' = JStr demo_handle"
    and g2: "get ?b2 ''session_id'' = JStr demo_handle"
    by (simp_all add: code_body_def password_body_def get_def)
  note t1 = retryable_failure_keeps_session
      [of ?e1 "Some ?b1" demo_world demo_handle demo_session demo_retries]
  note t2 = retryable_failure_keeps_session
      [of ?e2 "Some ?b2" demo_world demo_handle demo_session demo_retries]
  from t1 demo_first_answer obtain d1 sid1 sess1 where
    "Some ?b1 = Some d1" "get d1 ''session_id'' = JStr sid1"
    "map_of (active_sessions demo_world) sid1 = Some sess1"
    "map_of (active_sessions (snd (verify_code ?e1 (Some ?b1) demo_world))) sid1 = Some sess1"
    by blast
  with g1 l have k1:
    "map_of (active_sessions (snd (verify_code ?e1 (Some ?b1) demo_world))) demo_handle =
       Some demo_session"
    by auto
  from t2 demo_password_answer obtain d2 sid2 sess2 where
    "Some ?b2 = Some d2" "get d2 ''session_id'' = JStr sid2"
    "map_of (active_sessions demo_world) sid2 = Some sess2"
    "map_of (active_sessions (snd (submit_2fa ?e2 (Some ?b2) demo_world))) sid2 = Some sess2"
    by blast
  with g2 l have k2:
    "map_of (active_sessions (snd (submit_2fa ?e2 (Some ?b2) demo_world))) demo_handle =
       Some demo_session"
    by auto
  have "fst (serve demo_retries demo_world) = map retry_answer demo_retries \<and>
        map_of (active_sessions (snd (serve demo_retries demo_world))) demo_handle =
          Some demo_session"
    using t1 d l n demo_retries_ok by blast
  moreover have "map retry_answer demo_retries =
     [Error ''Invalid verification code'',
      Error ''Verification code expired. Please request a new code.'',
      Error ''Invalid 2FA password'']"
    by (simp add: demo_retries_def retry_answer_def demo_env_def)
  ultimately show ?thesis
    using k1 k2 demo_first_answer demo_password_answer by simp
qed

text \<open>
  C2, as the program has it. A handle whose record is already older than 600 seconds
  when the expiry sweep of the request runs gets, from \<open>verify_code\<close> and from
  \<open>submit_2fa\<close> and for every code or password, the very answer an absent handle
  gets: ``Session expired. Please start over.'' when both fields are non-empty. A
  record that is within its 600 seconds at the sweep but beyond them at the later
  check of \<open>verify_code\<close> is removed as well, with the answer ``Session expired.
  Please request a new code.''
\<close>

theorem expired_like_absent:
  "(map_of (active_sessions w1) sid = None \<and>
    map_of (active_sessions w2) sid = Some sess \<and>
    now_sweep e - created_at sess > 600 \<and>
    get d ''session_id'' = JStr sid \<longrightarrow>
      fst (verify_code e (Some d) w2) = fst (verify_code e (Some d) w1) \<and>
      fst (submit_2fa e (Some d) w2) = fst (submit_2fa e (Some d) w1) \<and>
      (sid \<noteq> [] \<and> truthy (get d ''phone_code'') \<longrightarrow>
         fst (verify_code e (Some d) w2) = Error ''Session expired. Please start over.'') \<and>
      (sid \<noteq> [] \<and> truthy (get d ''password'') \<longrightarrow>
         fst (submit_2fa e (Some d) w2) = Error ''Session expired. Please start over.'')) \<and>
   (distinct (map fst (active_sessions w2)) \<and>
    map_of (active_sessions w2) sid = Some sess \<and>
    \<not> now_sweep e - created_at sess > 600 \<and>
    now_check e - created_at sess > 600 \<and>
    sid \<noteq> [] \<and> get d ''session_id'' = JStr sid \<and> truthy (get d ''phone_code'') \<longrightarrow>
      fst (verify_code e (Some d) w2) =
        Error ''Session expired. Please request a new code.'' \<and>
      map_of (active_sessions (snd (verify_code e (Some d) w2))) sid = None)"
proof (intro conjI impI)
  assume a: "map_of (active_sessions w1) sid = None \<and>
    map_of (active_sessions w2) sid = Some sess \<and>
    now_sweep e - created_at sess > 600 \<and>
    get d ''session_id'' = JStr sid"
  then have n1: "map_of (active_sessions (expire_old_sessions e w1)) sid = None"
    by (simp add: lookup_sweep_None)
  from a have n2: "map_of (active_sessions (expire_old_sessions e w2)) sid = None"
    by (simp add: lookup_sweep_expired)
  from a have g: "get d ''session_id'' = JStr sid" by simp
  show "fst (verify_code e (Some d) w2) = fst (verify_code e (Some d) w1)"
    by (simp only: verify_code_unknown [OF g n1] verify_code_unknown [OF g n2])
  show "fst (submit_2fa e (Some d) w2) = fst (submit_2fa e (Some d) w1)"
    by (simp only: submit_2fa_unknown [OF g n1] submit_2fa_unknown [OF g n2])
  show "fst (verify_code e (Some d) w2) = Error ''Session expired. Please start over.''"
    if "sid \<noteq> [] \<and> truthy (get d ''phone_code'')"
    using that by (simp add: verify_code_unknown [OF g n2])
  show "fst (submit_2fa e (Some d) w2) = Error ''Session expired. Please start over.''"
    if "sid \<noteq> [] \<and> truthy (get d ''password'')"
    using that by (simp add: submit_2fa_unknown [OF g n2])
next
  assume b: "distinct (map fst (active_sessions w2)) \<and>
    map_of (active_sessions w2) sid = Some sess \<and>
    \<not> now_sweep e - created_at sess > 600 \<and>
    now_check e - created_at sess > 600 \<and>
    sid \<noteq> [] \<and> get d ''session_id'' = JStr sid \<and> truthy (get d ''phone_code'')"
  then show "fst (verify_code e (Some d) w2) =
        Error ''Session expired. Please request a new code.''"
    and "map_of (active_sessions (snd (verify_code e (Some d) w2))) sid = None"
    using verify_code_late [of w2 sid sess e d] by simp_all
qed

text \<open>
  The claim as stated fails: with the clock at 1600 in the sweep and at 1601 in the
  check, the stored session (created at 1000) is present and expired, and its answer
  differs from the answer for an absent handle.
\<close>

theorem expired_like_absent_counterexample:
  "map_of (active_sessions empty_world) demo_handle = None \<and>
   map_of (active_sessions demo_world) demo_handle = Some demo_session \<and>
   now_check late_env - created_at demo_session > 600 \<and>
   fst (verify_code late_env (Some (code_body demo_handle ''12345'')) empty_world) =
     Error ''Session expired. Please start over.'' \<and>
   fst (verify_code late_env (Some (code_body demo_handle ''12345'')) demo_world) =
     Error ''Session expired. Please request a new code.'' \<and>
   fst (verify_code late_env (Some (code_body demo_handle ''12345'')) demo_world) \<noteq>
   fst (verify_code late_env (Some (code_body demo_handle ''12345'')) empty_world)"
  by (simp add: verify_code_def expire_old_sessions_def expired_def late_env_def
      empty_world_def demo_env_def demo_world_def demo_session_def demo_handle_def
      code_body_def get_def Let_def)

theorem expired_like_absent_witness:
  "fst (verify_code (demo_env\<lparr>now_sweep := 1601\<rparr>)
          (Some (code_body demo_handle ''12345'')) demo_world) =
     Error ''Session expired. Please start over.'' \<and>
   fst (verify_code (demo_env\<lparr>now_sweep := 1601\<rparr>)
          (Some (code_body demo_handle ''12345'')) demo_world) =
   fst (verify_code (demo_env\<lparr>now_sweep := 1601\<rparr>)
          (Some (code_body demo_handle ''12345'')) empty_world) \<and>
   fst (submit_2fa (demo_env\<lparr>now_sweep := 1601\<rparr>)
          (Some (code_body demo_handle ''12345'')) demo_world) =
   fst (submit_2fa (demo_env\<lparr>now_sweep := 1601\<rparr>)
          (Some (code_body demo_handle ''12345'')) empty_world) \<and>
   fst (verify_code late_env (Some (code_body demo_handle ''12345'')) demo_world) =
     Error ''Session expired. Please request a new code.'' \<and>
   map_of (active_sessions
      (snd (verify_code late_env (Some (code_body demo_handle ''12345'')) demo_world)))
      demo_handle = None"
proof -
  have h1: "map_of (active_sessions empty_world) demo_handle = None"
    and h2: "map_of (active_sessions demo_world) demo_handle = Some demo_session"
    and h3: "now_sweep (demo_env\<lparr>now_sweep := 1601\<rparr>) - created_at demo_session > 600"
    and h4: "get (code_body demo_handle ''12345'') ''session_id'' = JStr demo_handle"
    and h5: "demo_handle \<noteq> []"
    and h6: "truthy (get (code_body demo_handle ''12345'') ''phone_code'')"
    and h7: "distinct (map fst (active_sessions demo_world))"
    and h8: "\<not> now_sweep late_env - created_at demo_session > 600"
    and h9: "now_check late_env - created_at demo_session > 600"
    by (simp_all add: empty_world_def demo_world_def demo_env_def demo_session_def
        code_body_def get_def demo_handle_def late_env_def)
  show ?thesis
    using expired_like_absent
        [of empty_world demo_handle demo_world demo_session
            "demo_env\<lparr>now_sweep := 1601\<rparr>" "code_body demo_handle ''12345''"]
      expired_like_absent
        [of empty_world demo_handle demo_world demo_session
            late_env "code_body demo_handle ''12345''"]
      h1 h2 h3 h4 h5 h6 h7 h8 h9
    by blast
qed












text \<open>
  C5. Every route starts with the expiry sweep. The sweep calls \<open>disconnect\<close> on the
  client of every stored record older than 600 seconds and removes the record, and
  it keeps every other record as it is. What the route then answers and leaves
  behind is what it would answer and leave on the swept world; and every sign-in or
  session export made while serving the request is on the client of a stored record
  that is not older than 600 seconds at the sweep.
\<close>

theorem sweep_before_every_operation:
  assumes "distinct (map fst (active_sessions w))"
  shows "(\<exists>cs. calls (expire_old_sessions e w) = calls w @ cs \<and>
            (\<forall>sid s. map_of (active_sessions w) sid = Some s \<and>
               now_sweep e - created_at s > 600 \<longrightarrow>
               Disconnect (client s) \<in> set cs \<and>
               map_of (active_sessions (expire_old_sessions e w)) sid = None)) \<and>
         (\<forall>sid s. map_of (active_sessions w) sid = Some s \<and>
            \<not> now_sweep e - created_at s > 600 \<longrightarrow>
            map_of (active_sessions (expire_old_sessions e w)) sid = Some s) \<and>
         handle_request r e body w = handle_request r e body (expire_old_sessions e w) \<and>
         (\<exists>cs. calls (snd (handle_request r e body w)) =
                 calls (expire_old_sessions e w) @ cs \<and>
            (\<forall>x \<in> set cs. \<forall>c. sign_in_client x = Some c \<longrightarrow>
               (\<exists>sid s. map_of (active_sessions w) sid = Some s \<and> client s = c \<and>
                  \<not> now_sweep e - created_at s > 600)))"
proof (intro conjI)
  from calls_expire_old_sessions [of e w] obtain cs where
    "calls (expire_old_sessions e w) = calls w @ cs"
    "\<forall>sid s. map_of (active_sessions w) sid = Some s \<and> now_sweep e - created_at s > 600 \<longrightarrow>
           Disconnect (client s) \<in> set cs"
    by blast
  then show "\<exists>cs. calls (expire_old_sessions e w) = calls w @ cs \<and>
            (\<forall>sid s. map_of (active_sessions w) sid = Some s \<and>
               now_sweep e - created_at s > 600 \<longrightarrow>
               Disconnect (client s) \<in> set cs \<and>
               map_of (active_sessions (expire_old_sessions e w)) sid = None)"
    using lookup_sweep_expired [of w _ _ e] by blast
next
  show "\<forall>sid s. map_of (active_sessions w) sid = Some s \<and>
            \<not> now_sweep e - created_at s > 600 \<longrightarrow>
            map_of (active_sessions (expire_old_sessions e w)) sid = Some s"
    using lookup_sweep_fresh [OF assms] by blast
next
  show "handle_request r e body w = handle_request r e body (expire_old_sessions e w)"
    by (rule handle_request_swept [symmetric]) (rule sweep_idem [OF assms])
next
  from handle_request_calls [of r e body w] obtain cs where
    c: "calls (snd (handle_request r e body w)) = calls (expire_old_sessions e w) @ cs"
    and u: "\<forall>x \<in> set cs. \<forall>c. sign_in_client x = Some c \<longrightarrow>
           (\<exists>sid s. map_of (active_sessions (expire_old_sessions e w)) sid = Some s \<and>
                    client s = c)"
    by blast
  have "\<exists>sid s. map_of (active_sessions w) sid = Some s \<and> client s = c \<and>
                  \<not> now_sweep e - created_at s > 600"
    if "x \<in> set cs" "sign_in_client x = Some c" for x c
  proof -
    from u that obtain sid s where
      l: "map_of (active_sessions (expire_old_sessions e w)) sid = Some s" and "client s = c"
      by blast
    with lookup_sweep_Some [OF l] lookup_sweep_Some_fresh [OF l] show ?thesis by blast
  qed
  with c show "\<exists>cs. calls (snd (handle_request r e body w)) =
                 calls (expire_old_sessions e w) @ cs \<and>
            (\<forall>x \<in> set cs. \<forall>c. sign_in_client x = Some c \<longrightarrow>
               (\<exists>sid s. map_of (active_sessions w) sid = Some s \<and> client s = c \<and>
                  \<not> now_sweep e - created_at s > 600))"
    by blast
qed

theorem sweep_before_every_operation_witness:
  "distinct (map fst (active_sessions demo_world)) \<and>
   map_of (active_sessions demo_world) demo_handle = Some demo_session \<and>
   now_sweep (demo_env\<lparr>now_sweep := 1601\<rparr>) - created_at demo_session > 600 \<and>
   map_of (active_sessions (expire_old_sessions (demo_env\<lparr>now_sweep := 1601\<rparr>) demo_world))
     demo_handle = None \<and>
   Disconnect (client demo_session) \<in>
     set (calls (expire_old_sessions (demo_env\<lparr>now_sweep := 1601\<rparr>) demo_world)) \<and>
   handle_request Submit_2fa (demo_env\<lparr>now_sweep := 1601\<rparr>)
     (Some (password_body demo_handle ''hunter2'')) demo_world =
   handle_request Submit_2fa (demo_env\<lparr>now_sweep := 1601\<rparr>)
     (Some (password_body demo_handle ''hunter2''))
     (expire_old_sessions (demo_env\<lparr>now_sweep := 1601\<rparr>) demo_world)"
proof -
  let ?e = "demo_env\<lparr>now_sweep := 1601\<rparr>"
  have d: "distinct (map fst (active_sessions demo_world))"
    and l: "map_of (active_sessions demo_world) demo_handle = Some demo_session"
    and x: "now_sweep ?e - created_at demo_session > 600"
    by (simp_all add: demo_world_def demo_session_def demo_env_def)
  note t = sweep_before_every_operation
    [OF d, of ?e Submit_2fa "Some (password_body demo_handle ''hunter2'')"]
  from t l x have "map_of (active_sessions (expire_old_sessions ?e demo_world)) demo_handle = None"
    by blast
  moreover from t l x have
    "Disconnect (client demo_session) \<in> set (calls (expire_old_sessions ?e demo_world))"
    by auto
  moreover from t have
    "handle_request Submit_2fa ?e (Some (password_body demo_handle ''hunter2'')) demo_world =
     handle_request Submit_2fa ?e (Some (password_body demo_handle ''hunter2''))
       (expire_old_sessions ?e demo_world)"
    by blast
  ultimately show ?thesis using d l x by blast
qed

text \<open>
  C3, as the program has it. Start from a world in which the open connections are
  exactly the clients of the stored records, each record with a client of its own.
  If every \<open>disconnect\<close> call of the request goes through, and a handle generated by
  \<open>send_code\<close> is not already in the store, then the world after the request is
  again such a world, and the client of every record the request removed is no
  longer connected. (When a \<open>disconnect\<close> call raises, the program logs a warning and
  removes the record all the same.)
\<close>

theorem records_and_connections_together:
  assumes "store_matches_connections w"
      and "\<forall>c. disconnect_ok e c"
      and "r = Send_code \<longrightarrow>
           map_of (active_sessions (expire_old_sessions e w)) (token e) = None"
  shows "store_matches_connections (snd (handle_request r e body w)) \<and>
         (\<forall>sid s. map_of (active_sessions w) sid = Some s \<and>
            map_of (active_sessions (snd (handle_request r e body w))) sid = None \<longrightarrow>
            client s \<notin> live (snd (handle_request r e body w)))"
proof -
  from assms(2) have ok: "disconnect_ok e = (\<lambda>c. True)" by (simp add: fun_eq_iff)
  have inv': "store_matches_connections (snd (handle_request r e body w))"
    using assms(1) ok assms(3) by (rule matches_handle_request)
  moreover have "client s \<notin> live (snd (handle_request r e body w))"
    if "map_of (active_sessions w) sid = Some s \<and>
        map_of (active_sessions (snd (handle_request r e body w))) sid = None" for sid s
    using assms(1) inv' handle_request_lookup [of r e body w] that
    by (intro removed_record_disconnected [where w = w and sid = sid]) simp_all
  ultimately show ?thesis by blast
qed

text \<open>
  The claim as stated fails: the stored session is older than 600 seconds and the
  \<open>disconnect\<close> call of the sweep raises. The record is removed, its connection is
  still open, and the store no longer matches the connections.
\<close>

theorem records_and_connections_together_counterexample:
  "store_matches_connections demo_world \<and>
   active_sessions (snd (handle_request Verify_code
      (demo_env\<lparr>now_sweep := 2000, disconnect_ok := (\<lambda>c. False)\<rparr>)
      (Some (code_body demo_handle ''12345'')) demo_world)) = [] \<and>
   client demo_session \<in> live (snd (handle_request Verify_code
      (demo_env\<lparr>now_sweep := 2000, disconnect_ok := (\<lambda>c. False)\<rparr>)
      (Some (code_body demo_handle ''12345'')) demo_world)) \<and>
   \<not> store_matches_connections (snd (handle_request Verify_code
      (demo_env\<lparr>now_sweep := 2000, disconnect_ok := (\<lambda>c. False)\<rparr>)
      (Some (code_body demo_handle ''12345'')) demo_world))"
  by (simp add: store_matches_connections_def verify_code_def expire_old_sessions_def
      expired_def cleanup_session_def disconnect_def log_call_def
      demo_env_def demo_world_def demo_session_def demo_handle_def code_body_def get_def
      Let_def)

theorem records_and_connections_together_witness:
  "store_matches_connections demo_world \<and>
   map_of (active_sessions demo_world) demo_handle = Some demo_session \<and>
   store_matches_connections
     (snd (handle_request Verify_code demo_env (Some (code_body demo_handle ''12345''))
        demo_world)) \<and>
   client demo_session \<notin>
     live (snd (handle_request Verify_code demo_env (Some (code_body demo_handle ''12345''))
        demo_world))"
proof -
  let ?w' = "snd (handle_request Verify_code demo_env (Some (code_body demo_handle ''12345''))
        demo_world)"
  have i: "store_matches_connections demo_world"
    by (simp add: store_matches_connections_def demo_world_def demo_session_def)
  have ok: "\<forall>c. disconnect_ok demo_env c"
    by (simp add: demo_env_def)
  have l: "map_of (active_sessions demo_world) demo_handle = Some demo_session"
    by (simp add: demo_world_def)
  have n: "map_of (active_sessions ?w') demo_handle = None"
    by (simp add: verify_code_def async_verify_code_def expire_old_sessions_def expired_def
      cleanup_session_def disconnect_def log_call_def
      demo_env_def demo_world_def demo_session_def demo_handle_def code_body_def get_def
      Let_def)
  from records_and_connections_together
    [OF i ok, of Verify_code "Some (code_body demo_handle ''12345'')"] l n i
  show ?thesis by auto
qed

end
